theory Spec2Isabelle
  imports Main "HOL-Library.Word"
begin

section \<open>The BBB flagship button driver\<close>

text \<open>
  A shallow embedding of \<^verbatim>\<open>drivers/button/bbb_flagship_button.c\<close> and
  \<^verbatim>\<open>drivers/button/bbb_flagship_button_chardev.c\<close>.  The driver state
  \<^verbatim>\<open>struct bbb_btn\<close> is a record that every entry point takes and returns.
  Sections of the C code that run under a spinlock are atomic in the C code and are
  single function applications here.  What the kernel supplies (the GPIO level, the
  clock, signals, faults of \<^verbatim>\<open>copy_to_user\<close>) is an argument of the
  function that asks for it.
\<close>

subsection \<open>C strings\<close>

type_synonym s64 = "64 word"
type_synonym u32 = "32 word"

definition NUL :: char where
  "NUL = CHR 0x00"

text \<open>
  A \<^verbatim>\<open>const char *\<close> is modelled by the bytes found at the address.  The string
  it denotes stops before the first NUL; the end of the list stands for the end of the
  object the pointer refers to.
\<close>

definition cstr :: "string \<Rightarrow> string" where
  "cstr m = takeWhile (\<lambda>c. c \<noteq> NUL) m"

definition strlen :: "string \<Rightarrow> nat" where
  "strlen m = length (cstr m)"

text \<open>
  \<^verbatim>\<open>strncpy(dst, src, n)\<close> writes exactly \<open>n\<close> bytes at the start of
  \<open>dst\<close>: the first \<open>n\<close> characters of the source string, then NULs up to
  \<open>n\<close>.  The bytes of \<open>dst\<close> from index \<open>n\<close> on are kept.
\<close>

definition strncpy :: "string \<Rightarrow> string \<Rightarrow> nat \<Rightarrow> string" where
  "strncpy dst src n =
     (let c = take n (cstr src)
      in c @ replicate (n - length c) NUL @ drop n dst)"

text \<open>
  \<^verbatim>\<open>snprintf(msg, sz, ...)\<close> stores at most \<open>sz - 1\<close> characters of the
  formatted text and a terminating NUL.
\<close>

definition snprintf :: "nat \<Rightarrow> string \<Rightarrow> string" where
  "snprintf sz txt = take (sz - 1) txt @ [NUL]"

text \<open>The conversion \<^verbatim>\<open>%lld\<close> of a signed 64-bit value.\<close>

definition digit_char :: "nat \<Rightarrow> char" where
  "digit_char d = ''0123456789'' ! (d mod 10)"

function dec :: "nat \<Rightarrow> string" where
  "dec n = (if n < 10 then [digit_char n] else dec (n div 10) @ [digit_char (n mod 10)])"
  by pat_completeness auto
termination
  by (relation "measure id") auto

definition lld :: "s64 \<Rightarrow> string" where
  "lld w = (if sint w < 0 then CHR ''-'' # dec (nat (- sint w)) else dec (nat (sint w)))"

subsection \<open>Driver state\<close>

text \<open>
  The input core is modelled by the list of calls it has received, oldest first.
\<close>

datatype input_call = Report_key nat int | Sync

definition KEY_ENTER :: nat where
  "KEY_ENTER = 28"

text \<open>
  \<^verbatim>\<open>struct bbb_btn\<close>.  The four counters are \<^verbatim>\<open>atomic64_t\<close>, signed 64-bit
  values that wrap around.  \<open>debounce_work\<close> holds the delays of the pending timers
  of the delayed work, in milliseconds (the argument of \<^verbatim>\<open>msecs_to_jiffies\<close>):
  the list is empty when the work is not pending.  \<open>buffer\<close>, \<open>has_event\<close> and
  \<open>wait\<close> are the members of the nested struct \<^verbatim>\<open>chardev\<close>; \<open>wait\<close> lists
  the readers asleep on the wait queue.  \<open>registered\<close> tells whether the
  character device exists.  \<open>input\<close> is the log of the input device.
\<close>

record bbb_btn =
  irq :: int
  press_count :: s64
  last_event_ns :: s64
  total_irqs :: s64
  work_executions :: s64
  debounce_ms :: u32
  last_irq_time :: s64
  debounce_work :: "u32 list"
  last_state :: int
  work_pending :: bool
  buffer :: string
  has_event :: bool
  wait :: "nat list"
  registered :: bool
  input :: "input_call list"

definition ENOMEM :: int where "ENOMEM = 12"
definition EAGAIN :: int where "EAGAIN = 11"
definition EFAULT :: int where "EFAULT = 14"
definition ERESTARTSYS :: int where "ERESTARTSYS = 512"

subsection \<open>Kernel primitives used by the driver\<close>

text \<open>
  \<^verbatim>\<open>wait_event_interruptible(wq, condition)\<close> evaluates the condition first and
  returns 0 when it holds; otherwise it returns \<^verbatim>\<open>-ERESTARTSYS\<close> when a signal
  is pending, and otherwise the caller sleeps on the wait queue.  A sleeper that is
  woken evaluates the same test again.
\<close>

datatype wait_result = Sleeping | Finished int

definition wait_event_interruptible :: "bool \<Rightarrow> bool \<Rightarrow> wait_result" where
  "wait_event_interruptible condition signal_pending =
     (if condition then Finished 0
      else if signal_pending then Finished (- ERESTARTSYS)
      else Sleeping)"

text \<open>
  \<^verbatim>\<open>wake_up_interruptible(&btn->chardev.wait)\<close> wakes every sleeper of the
  queue.  Each of them evaluates its condition \<open>has_event\<close> again: when it holds
  the sleeper leaves the queue and goes on to the locked section of the read, when it
  does not the sleeper stays on the queue.
\<close>

definition wake_up_interruptible :: "bbb_btn \<Rightarrow> bbb_btn" where
  "wake_up_interruptible s = (if has_event s then s\<lparr>wait := []\<rparr> else s)"

text \<open>
  A delayed work is pending at most once: \<^verbatim>\<open>schedule_delayed_work\<close> does
  nothing when the work is already pending, and \<^verbatim>\<open>cancel_delayed_work\<close> removes
  the pending timer.  \<^verbatim>\<open>cancel_delayed_work_sync\<close> also waits for a running
  work function; work functions are atomic in this model, so none is running when
  another function is applied.
\<close>

definition schedule_delayed_work :: "u32 \<Rightarrow> bbb_btn \<Rightarrow> bbb_btn" where
  "schedule_delayed_work delay s =
     (if debounce_work s = [] then s\<lparr>debounce_work := [delay]\<rparr> else s)"

definition cancel_delayed_work :: "bbb_btn \<Rightarrow> bbb_btn" where
  "cancel_delayed_work s = s\<lparr>debounce_work := []\<rparr>"

definition cancel_delayed_work_sync :: "bbb_btn \<Rightarrow> bbb_btn" where
  "cancel_delayed_work_sync s = s\<lparr>debounce_work := []\<rparr>"

subsection \<open>The character device: \<^verbatim>\<open>bbb_flagship_button_chardev.c\<close>\<close>

text \<open>
  \<^verbatim>\<open>bbb_chardev_push_event\<close>: under the lock of the mailbox, copy at most 255
  characters of the message into the 256 bytes of the buffer, store a NUL in the last
  byte and set the flag; then wake the wait queue.
\<close>

definition bbb_chardev_push_event :: "string \<Rightarrow> bbb_btn \<Rightarrow> bbb_btn" where
  "bbb_chardev_push_event msg s =
     wake_up_interruptible
       (s\<lparr>buffer := (strncpy (buffer s) msg (256 - 1))[256 - 1 := NUL],
          has_event := True\<rparr>)"

text \<open>
  The result of a read: the caller sleeps in the wait (\<open>Blocked\<close>), or the call
  returns a value together with the bytes that arrived in the user buffer.
\<close>

datatype read_ret = Blocked | Ret int string

text \<open>
  The part of \<^verbatim>\<open>bbb_btn_chardev_read\<close> between \<^verbatim>\<open>spin_lock_irqsave\<close>
  and \<^verbatim>\<open>spin_unlock_irqrestore\<close> fills \<^verbatim>\<open>local_buf\<close>.  \<open>local_len\<close> is
  the value of \<open>len\<close> after the safety check, \<open>local_buf\<close> the bytes of the
  local array that have been written: \<open>len\<close> bytes of the buffer and a NUL.
\<close>

definition local_len :: "bbb_btn \<Rightarrow> nat" where
  "local_len s = (let len = strlen (buffer s) in if len \<ge> 256 then 256 - 1 else len)"

definition local_buf :: "bbb_btn \<Rightarrow> string" where
  "local_buf s = take (local_len s) (buffer s) @ [NUL]"

text \<open>
  The read from the locked section on.  A reader gets here when its wait has returned
  0; other readers may have run since, so the flag is tested again under the lock.
  \<open>fault\<close> tells whether \<^verbatim>\<open>copy_to_user\<close> fails.
\<close>

definition chardev_read_locked :: "bool \<Rightarrow> nat \<Rightarrow> bbb_btn \<Rightarrow> read_ret \<times> bbb_btn" where
  "chardev_read_locked fault count s =
     (if \<not> has_event s then (Ret (- EAGAIN) [], s)
      else
        let len = local_len s;
            lbuf = local_buf s;
            s' = s\<lparr>has_event := False\<rparr>;
            len = (if count < len then count else len)
        in if fault then (Ret (- EFAULT) [], s')
           else (Ret (int len) (take len lbuf), s'))"

text \<open>
  \<^verbatim>\<open>bbb_btn_chardev_read\<close>, called by reader \<open>pid\<close> for \<open>count\<close> bytes.
  When the wait does not return, the reader is on the wait queue.
\<close>

definition bbb_btn_chardev_read ::
  "nat \<Rightarrow> bool \<Rightarrow> bool \<Rightarrow> nat \<Rightarrow> bbb_btn \<Rightarrow> read_ret \<times> bbb_btn" where
  "bbb_btn_chardev_read pid signal_pending fault count s =
     (case wait_event_interruptible (has_event s) signal_pending of
        Sleeping \<Rightarrow> (Blocked, s\<lparr>wait := wait s @ [pid]\<rparr>)
      | Finished ret \<Rightarrow>
          if ret \<noteq> 0 then (Ret (- ERESTARTSYS) [], s)
          else chardev_read_locked fault count s)"

text \<open>
  \<^verbatim>\<open>bbb_chardev_register\<close>.  The results of the four kernel calls that can fail
  are arguments: the return values of \<^verbatim>\<open>alloc_chrdev_region\<close> and
  \<^verbatim>\<open>cdev_add\<close>, and the error codes (\<^verbatim>\<open>PTR_ERR\<close>) of
  \<^verbatim>\<open>class_create\<close> and \<^verbatim>\<open>device_create\<close> when they fail.
\<close>

record register_env =
  alloc_chrdev_region_ret :: int
  cdev_add_ret :: int
  class_create_err :: "int option"
  device_create_err :: "int option"

definition bbb_chardev_register :: "register_env \<Rightarrow> bbb_btn \<Rightarrow> int \<times> bbb_btn" where
  "bbb_chardev_register e s =
     (if alloc_chrdev_region_ret e \<noteq> 0 then (alloc_chrdev_region_ret e, s)
      else if cdev_add_ret e \<noteq> 0 then (cdev_add_ret e, s)
      else case class_create_err e of
        Some ret \<Rightarrow> (ret, s)
      | None \<Rightarrow>
          (case device_create_err e of
             Some ret \<Rightarrow> (ret, s)
           | None \<Rightarrow> (0, s\<lparr>wait := [], has_event := False, registered := True\<rparr>)))"

definition bbb_chardev_unregister :: "bbb_btn \<Rightarrow> bbb_btn" where
  "bbb_chardev_unregister s = (wake_up_interruptible s)\<lparr>registered := False\<rparr>"

subsection \<open>The platform driver: \<^verbatim>\<open>bbb_flagship_button.c\<close>\<close>

text \<open>
  \<^verbatim>\<open>bbb_btn_irq\<close> (its return value is always \<^verbatim>\<open>IRQ_HANDLED\<close>).
\<close>

definition bbb_btn_irq :: "bbb_btn \<Rightarrow> bbb_btn" where
  "bbb_btn_irq b =
     (let b = b\<lparr>total_irqs := total_irqs b + 1\<rparr>;
          b = cancel_delayed_work b;
          b = schedule_delayed_work (debounce_ms b) b
      in b\<lparr>work_pending := True\<rparr>)"

text \<open>
  \<^verbatim>\<open>bbb_btn_debounce_work\<close>.  \<open>state\<close> is the value that
  \<^verbatim>\<open>gpiod_get_value_cansleep\<close> returns, \<open>t_event\<close> the clock value stored as
  \<open>last_event_ns\<close>, \<open>t_msg\<close> the clock value printed in the message.
\<close>

definition event_text :: "int \<Rightarrow> s64 \<Rightarrow> s64 \<Rightarrow> string" where
  "event_text state cnt t =
     ''button '' @ (if state \<noteq> 0 then ''released'' else ''pressed'') @
     '': count='' @ lld cnt @ '' time='' @ lld t @ [CHR 0x0A]"

definition bbb_btn_debounce_work :: "int \<Rightarrow> s64 \<Rightarrow> s64 \<Rightarrow> bbb_btn \<Rightarrow> bbb_btn" where
  "bbb_btn_debounce_work state t_event t_msg b =
     (let b = b\<lparr>work_executions := work_executions b + 1\<rparr>;
          b = (if state \<noteq> last_state b then
                 b\<lparr>last_state := state,
                   press_count := press_count b + 1,
                   last_event_ns := t_event,
                   work_executions := work_executions b + 1,
                   input := input b @ [Report_key KEY_ENTER (if state = 0 then 1 else 0), Sync]\<rparr>
               else b);
          b = b\<lparr>work_pending := False\<rparr>;
          msg = snprintf 256 (event_text state (press_count b) t_msg)
      in bbb_chardev_push_event msg b)"

text \<open>
  \<^verbatim>\<open>bbb_btn_probe\<close>.  \<^verbatim>\<open>devm_kzalloc\<close> returns zeroed memory.  The results
  of the kernel calls are arguments; an error return is \<open>Inl\<close> of the negative
  error code.  A probe that fails gives its state back (after
  \<^verbatim>\<open>bbb_chardev_unregister\<close> when the character device was registered), so
  no state is returned with an error.
\<close>

definition kzalloc_bbb_btn :: bbb_btn where
  "kzalloc_bbb_btn =
     \<lparr>irq = 0, press_count = 0, last_event_ns = 0, total_irqs = 0, work_executions = 0,
      debounce_ms = 0, last_irq_time = 0, debounce_work = [], last_state = 0,
      work_pending = False, buffer = replicate 256 NUL, has_event = False, wait = [],
      registered = False, input = []\<rparr>"

record probe_env =
  kzalloc_ok :: bool
  dt_debounce_ms :: "u32 option"
  gpiod_err :: "int option"
  gpiod_to_irq_ret :: int
  request_irq_ret :: int
  gpiod_value :: int
  chardev_env :: register_env
  input_allocate_ok :: bool
  input_register_ret :: int

definition bbb_btn_probe :: "probe_env \<Rightarrow> int + bbb_btn" where
  "bbb_btn_probe e =
     (if \<not> kzalloc_ok e then Inl (- ENOMEM)
      else
        let b = kzalloc_bbb_btn;
            b = b\<lparr>debounce_ms := 20\<rparr>;
            b = (case dt_debounce_ms e of None \<Rightarrow> b | Some ms \<Rightarrow> b\<lparr>debounce_ms := ms\<rparr>)
        in case gpiod_err e of
          Some ret \<Rightarrow> Inl ret
        | None \<Rightarrow>
            let b = b\<lparr>irq := gpiod_to_irq_ret e\<rparr>
            in if irq b < 0 then Inl (irq b)
               else
                 let b = b\<lparr>press_count := 0, last_event_ns := 0, total_irqs := 0,
                           work_executions := 0, last_irq_time := 0\<rparr>
                 in if request_irq_ret e \<noteq> 0 then Inl (request_irq_ret e)
                    else
                      let b = b\<lparr>debounce_work := [], last_state := gpiod_value e,
                                work_pending := False\<rparr>;
                          (ret, b) = bbb_chardev_register (chardev_env e) b
                      in if ret \<noteq> 0 then Inl ret
                         else if \<not> input_allocate_ok e then Inl (- ENOMEM)
                         else if input_register_ret e \<noteq> 0 then Inl (input_register_ret e)
                         else Inr b)"

text \<open>\<^verbatim>\<open>bbb_btn_remove\<close>.\<close>

definition bbb_btn_remove :: "bbb_btn \<Rightarrow> bbb_btn" where
  "bbb_btn_remove b = bbb_chardev_unregister (cancel_delayed_work_sync b)"

subsection \<open>Runs of the driver\<close>

text \<open>
  The operations that the kernel applies to a bound driver: an interrupt, the expiry
  of the debounce timer (the work stops being pending and the work function runs), a
  call of read, a reader that left the wait earlier and now enters the locked section,
  a signal that takes a sleeping reader off the wait queue, and a publish.  A run
  applies a list of operations in order; every order is allowed.
\<close>

datatype op =
    Intake
  | Settle int s64 s64
  | Read nat bool bool nat
  | Resume bool nat
  | Signal nat
  | Publish string

fun exec :: "op \<Rightarrow> bbb_btn \<Rightarrow> bbb_btn" where
  "exec Intake b = bbb_btn_irq b"
| "exec (Settle state t_event t_msg) b =
     bbb_btn_debounce_work state t_event t_msg (b\<lparr>debounce_work := []\<rparr>)"
| "exec (Read pid signal_pending fault count) b =
     snd (bbb_btn_chardev_read pid signal_pending fault count b)"
| "exec (Resume fault count) b = snd (chardev_read_locked fault count b)"
| "exec (Signal pid) b = b\<lparr>wait := removeAll pid (wait b)\<rparr>"
| "exec (Publish msg) b = bbb_chardev_push_event msg b"

definition run :: "op list \<Rightarrow> bbb_btn \<Rightarrow> bbb_btn" where
  "run ops b = fold exec ops b"

subsection \<open>Predicates used in the statements\<close>

text \<open>
  The mailbox buffer is an array of 256 bytes whose last byte is NUL.
\<close>

definition mailbox_inv :: "bbb_btn \<Rightarrow> bool" where
  "mailbox_inv s = (length (buffer s) = 256 \<and> buffer s ! (256 - 1) = NUL)"

text \<open>
  An environment in which every kernel call of probe succeeds, the device tree has no
  \<^verbatim>\<open>debounce-ms\<close> property and the line reads \<open>level\<close>; and the state that
  probe leaves there.
\<close>

definition ok_env :: "int \<Rightarrow> probe_env" where
  "ok_env level =
     \<lparr>kzalloc_ok = True, dt_debounce_ms = None, gpiod_err = None, gpiod_to_irq_ret = 42,
      request_irq_ret = 0, gpiod_value = level,
      chardev_env = \<lparr>alloc_chrdev_region_ret = 0, cdev_add_ret = 0,
                      class_create_err = None, device_create_err = None\<rparr>,
      input_allocate_ok = True, input_register_ret = 0\<rparr>"

definition booted :: "int \<Rightarrow> bbb_btn" where
  "booted level = (case bbb_btn_probe (ok_env level) of Inr b \<Rightarrow> b | Inl e \<Rightarrow> kzalloc_bbb_btn)"

text \<open>
  The number of settle passes in a run, and the number of settle passes of a run that
  read a level different from the last accepted one, which is \<open>l\<close> at the start.
\<close>

fun passes :: "op list \<Rightarrow> nat" where
  "passes [] = 0"
| "passes (Settle state t_event t_msg # ops) = Suc (passes ops)"
| "passes (_ # ops) = passes ops"

fun changes :: "op list \<Rightarrow> int \<Rightarrow> nat" where
  "changes [] l = 0"
| "changes (Settle state t_event t_msg # ops) l =
     (if state \<noteq> l then Suc (changes ops state) else changes ops l)"
| "changes (_ # ops) l = changes ops l"

text \<open>
  The counters as userspace reads them (\<^verbatim>\<open>%lld\<close>): none is smaller in \<open>b'\<close>
  than in \<open>b\<close>.
\<close>

definition counters_le :: "bbb_btn \<Rightarrow> bbb_btn \<Rightarrow> bool" where
  "counters_le b b' =
     (sint (total_irqs b) \<le> sint (total_irqs b') \<and>
      sint (work_executions b) \<le> sint (work_executions b') \<and>
      sint (press_count b) \<le> sint (press_count b') \<and>
      sint (last_event_ns b) \<le> sint (last_event_ns b'))"

definition S64_MAX :: int where
  "S64_MAX = 2 ^ 63 - 1"

text \<open>
  No counter is about to wrap: an operation adds at most 1 to \<open>total_irqs\<close> and
  \<open>press_count\<close> and at most 2 to \<open>work_executions\<close>.
\<close>

definition below_max :: "bbb_btn \<Rightarrow> bool" where
  "below_max b =
     (sint (total_irqs b) < S64_MAX \<and> sint (press_count b) < S64_MAX \<and>
      sint (work_executions b) < S64_MAX - 1)"

text \<open>
  The clock value that a settle pass stores is not before the stored time stamp.
\<close>

fun clock_ok :: "op \<Rightarrow> bbb_btn \<Rightarrow> bool" where
  "clock_ok (Settle state t_event t_msg) b = (sint (last_event_ns b) \<le> sint t_event)"
| "clock_ok _ b = True"

section \<open>Properties\<close>

subsection \<open>Strings and the mailbox buffer\<close>

lemma cstr_nonNUL: "c \<in> set (cstr m) \<Longrightarrow> c \<noteq> NUL"
  unfolding cstr_def by (auto dest: set_takeWhileD)

lemma cstr_prefix:
  assumes "\<forall>c \<in> set p. c \<noteq> NUL" and "r = [] \<or> hd r = NUL"
  shows "cstr (p @ r) = p"
  using assms unfolding cstr_def by (cases r) (auto simp: takeWhile_append)

lemma take_cstr: "take (length (cstr m)) m = cstr m"
  unfolding cstr_def by (induction m) auto

lemma strlen_le: "strlen m \<le> length m"
  unfolding strlen_def cstr_def by (rule length_takeWhile_le)

lemma length_strncpy: "length (strncpy dst src n) = n + (length dst - n)"
  by (simp add: strncpy_def Let_def)

lemma push_buffer_alt:
  "(strncpy dst src n)[n := NUL] =
     take n (cstr src) @ replicate (n - length (take n (cstr src))) NUL @ (drop n dst)[0 := NUL]"
  by (simp add: strncpy_def Let_def list_update_append)

lemma cstr_push_buffer: "cstr ((strncpy dst src n)[n := NUL]) = take n (cstr src)"
proof -
  let ?c = "take n (cstr src)"
  let ?r = "replicate (n - length ?c) NUL @ (drop n dst)[0 := NUL]"
  have nn: "\<forall>c \<in> set ?c. c \<noteq> NUL"
    by (auto dest: in_set_takeD cstr_nonNUL)
  have "?r = [] \<or> hd ?r = NUL"
  proof (cases "n - length ?c")
    case 0
    then show ?thesis by (cases "drop n dst") simp_all
  next
    case (Suc k)
    then show ?thesis by simp
  qed
  with nn have "cstr (?c @ ?r) = ?c" by (rule cstr_prefix)
  then show ?thesis by (simp only: push_buffer_alt)
qed

lemma nth_push_buffer: "n < length dst \<Longrightarrow> (strncpy dst src n)[n := NUL] ! n = NUL"
  by (simp add: length_strncpy)

lemma strlen_terminated:
  assumes "i < length m" and "m ! i = NUL"
  shows "strlen m \<le> i"
proof (rule ccontr)
  assume "\<not> strlen m \<le> i"
  then have lt: "i < length (takeWhile (\<lambda>c. c \<noteq> NUL) m)" by (simp add: strlen_def cstr_def)
  then have "takeWhile (\<lambda>c. c \<noteq> NUL) m ! i \<in> set (takeWhile (\<lambda>c. c \<noteq> NUL) m)"
    by (rule nth_mem)
  then have "takeWhile (\<lambda>c. c \<noteq> NUL) m ! i \<noteq> NUL"
    by (rule set_takeWhileD [THEN conjunct2])
  moreover have "takeWhile (\<lambda>c. c \<noteq> NUL) m ! i = m ! i"
    using lt by (rule takeWhile_nth)
  ultimately show False using assms by simp
qed

lemma push_event_fields:
  "buffer (bbb_chardev_push_event msg s) = (strncpy (buffer s) msg (256 - 1))[256 - 1 := NUL]"
  "has_event (bbb_chardev_push_event msg s)"
  "wait (bbb_chardev_push_event msg s) = []"
  "debounce_work (bbb_chardev_push_event msg s) = debounce_work s"
  "press_count (bbb_chardev_push_event msg s) = press_count s"
  "last_event_ns (bbb_chardev_push_event msg s) = last_event_ns s"
  "total_irqs (bbb_chardev_push_event msg s) = total_irqs s"
  "work_executions (bbb_chardev_push_event msg s) = work_executions s"
  "last_state (bbb_chardev_push_event msg s) = last_state s"
  "input (bbb_chardev_push_event msg s) = input s"
  by (simp_all add: bbb_chardev_push_event_def wake_up_interruptible_def del: One_nat_def diff_numeral_special)

lemma push_event_inv:
  assumes "length (buffer s) = 256"
  shows "mailbox_inv (bbb_chardev_push_event msg s)"
  using assms by (simp add: mailbox_inv_def push_event_fields length_strncpy nth_push_buffer del: nth_list_update_eq)


lemma local_len_le: "local_len s \<le> 256 - 1"
  unfolding local_len_def Let_def by (simp del: One_nat_def diff_numeral_special)

lemma local_len_inv: "mailbox_inv s \<Longrightarrow> local_len s = strlen (buffer s)"
proof -
  assume "mailbox_inv s"
  then have "strlen (buffer s) \<le> 256 - 1"
    unfolding mailbox_inv_def by (intro strlen_terminated) simp_all
  then show ?thesis unfolding local_len_def Let_def by simp
qed

lemma local_buf_inv: "mailbox_inv s \<Longrightarrow> local_buf s = cstr (buffer s) @ [NUL]"
  by (simp add: local_buf_def local_len_inv strlen_def take_cstr)

lemma length_local_buf: "length (local_buf s) \<le> 256"
proof -
  have "length (local_buf s) \<le> local_len s + 1" by (simp add: local_buf_def)
  also have "\<dots> \<le> 256" using local_len_le [of s] by simp
  finally show ?thesis .
qed

lemma read_locked_event:
  assumes "has_event s"
  shows "chardev_read_locked fault count s =
     (if fault then Ret (- EFAULT) []
      else Ret (int (min count (local_len s))) (take (min count (local_len s)) (local_buf s)),
      s\<lparr>has_event := False\<rparr>)"
  using assms by (simp add: chardev_read_locked_def Let_def min_def)

lemma read_locked_no_event:
  assumes "\<not> has_event s"
  shows "chardev_read_locked fault count s = (Ret (- EAGAIN) [], s)"
  using assms by (simp add: chardev_read_locked_def)

lemma read_event:
  assumes "has_event s"
  shows "bbb_btn_chardev_read pid sig fault count s = chardev_read_locked fault count s"
  using assms by (simp add: bbb_btn_chardev_read_def wait_event_interruptible_def)

lemma read_no_event:
  assumes "\<not> has_event s"
  shows "bbb_btn_chardev_read pid sig fault count s =
     (if sig then (Ret (- ERESTARTSYS) [], s) else (Blocked, s\<lparr>wait := wait s @ [pid]\<rparr>))"
  using assms by (simp add: bbb_btn_chardev_read_def wait_event_interruptible_def ERESTARTSYS_def)

lemma take_min_cstr:
  "take (min count (length (cstr m))) (cstr m @ [NUL]) = take count (cstr m)"
  by (simp add: min_def)

lemma booted_eq:
  "booted level = kzalloc_bbb_btn\<lparr>irq := 42, debounce_ms := 20, last_state := level, registered := True\<rparr>"
  by (simp add: booted_def bbb_btn_probe_def ok_env_def bbb_chardev_register_def kzalloc_bbb_btn_def Let_def)

lemma kzalloc_inv: "mailbox_inv kzalloc_bbb_btn"
  by (simp add: mailbox_inv_def kzalloc_bbb_btn_def)

lemma booted_inv: "mailbox_inv (booted level)"
  using kzalloc_inv by (simp add: booted_eq mailbox_inv_def)

lemma read_buffer: "buffer (snd (bbb_btn_chardev_read pid sig fault count s)) = buffer s"
  by (cases "has_event s") (simp_all add: read_event read_locked_event read_no_event)

lemma read_locked_buffer: "buffer (snd (chardev_read_locked fault count s)) = buffer s"
  by (cases "has_event s") (simp_all add: read_locked_event read_locked_no_event)

lemma debounce_work_inv:
  assumes "length (buffer b) = 256"
  shows "mailbox_inv (bbb_btn_debounce_work state t_event t_msg b)"
  unfolding bbb_btn_debounce_work_def Let_def
  by (rule push_event_inv) (simp add: assms)

lemma exec_inv:
  assumes "mailbox_inv s"
  shows "mailbox_inv (exec x s)"
proof (cases x)
  case Intake
  then show ?thesis using assms
    by (simp add: mailbox_inv_def bbb_btn_irq_def cancel_delayed_work_def schedule_delayed_work_def Let_def)
next
  case (Settle state t_event t_msg)
  from assms have "length (buffer (s\<lparr>debounce_work := []\<rparr>)) = 256" by (simp add: mailbox_inv_def)
  then show ?thesis unfolding Settle exec.simps by (rule debounce_work_inv)
next
  case (Read pid sig fault count)
  then show ?thesis using assms by (simp add: mailbox_inv_def read_buffer)
next
  case (Resume fault count)
  then show ?thesis using assms by (simp add: mailbox_inv_def read_locked_buffer)
next
  case (Signal pid)
  then show ?thesis using assms by (simp add: mailbox_inv_def)
next
  case (Publish msg)
  from assms have "length (buffer s) = 256" by (simp add: mailbox_inv_def)
  then show ?thesis unfolding Publish exec.simps by (rule push_event_inv)
qed

lemma run_inv: "mailbox_inv s \<Longrightarrow> mailbox_inv (run ops s)"
  unfolding run_def by (induction ops arbitrary: s) (simp_all add: exec_inv)

subsection \<open>The blocking read\<close>

text \<open>
  Claim C4.  A read that returns a byte count, from its entry or from the locked
  section, hands over the start of the pending message: all \<open>L\<close> bytes of it when
  \<open>count \<ge> L\<close>, the first \<open>count\<close> bytes otherwise, and the value returned is
  the number of bytes that reached the caller.
\<close>

theorem read_returns_bytes_copied:
  assumes "mailbox_inv s"
    and "bbb_btn_chardev_read pid sig fault count s = (Ret n data, s') \<or>
         chardev_read_locked fault count s = (Ret n data, s')"
    and "0 \<le> n"
  shows "n = int (length data) \<and>
         data = take count (cstr (buffer s)) \<and>
         length data = (if strlen (buffer s) \<le> count then strlen (buffer s) else count)"
proof (cases "has_event s")
  case False
  with assms(2,3) show ?thesis
    by (auto simp: read_no_event read_locked_no_event ERESTARTSYS_def EAGAIN_def split: if_splits)
next
  case True
  have lb: "local_buf s = cstr (buffer s) @ [NUL]" and ll: "local_len s = length (cstr (buffer s))"
    using assms(1) by (simp_all add: local_buf_inv local_len_inv strlen_def)
  from True assms(2) have r: "chardev_read_locked fault count s = (Ret n data, s')"
    by (simp add: read_event)
  with True assms(3) have nf: "\<not> fault"
    by (auto simp: read_locked_event EFAULT_def split: if_splits)
  with True r have n: "n = int (min count (local_len s))"
    and d: "data = take (min count (local_len s)) (local_buf s)"
    by (simp_all add: read_locked_event)
  from d have d': "data = take count (cstr (buffer s))"
    by (simp only: lb ll take_min_cstr)
  then show ?thesis using n ll by (auto simp: strlen_def min_def)
qed

theorem read_returns_bytes_copied_witness:
  "mailbox_inv (bbb_chardev_push_event ''hello'' (booted 1)) \<and>
   bbb_btn_chardev_read 1 False False 3 (bbb_chardev_push_event ''hello'' (booted 1)) =
     (Ret 3 ''hel'', (bbb_chardev_push_event ''hello'' (booted 1))\<lparr>has_event := False\<rparr>) \<and>
   (0::int) \<le> 3 \<and> (3::int) = int (length ''hel'') \<and>
   ''hel'' = take 3 (cstr (buffer (bbb_chardev_push_event ''hello'' (booted 1))))"
proof -
  let ?s = "bbb_chardev_push_event ''hello'' (booted 1)"
  have h1: "mailbox_inv ?s" by (rule push_event_inv [OF booted_inv [unfolded mailbox_inv_def, THEN conjunct1]])
  have c: "cstr (buffer ?s) = ''hello''"
    using cstr_push_buffer [of "buffer (booted 1)" "''hello''" 255]
    by (simp add: push_event_fields cstr_def NUL_def)
  have h2: "bbb_btn_chardev_read 1 False False 3 ?s = (Ret 3 ''hel'', ?s\<lparr>has_event := False\<rparr>)"
    using c by (simp add: read_event read_locked_event push_event_fields local_len_inv [OF h1] local_buf_inv [OF h1] strlen_def)
  have h3: "(0::int) \<le> 3" by simp
  from read_returns_bytes_copied [OF h1 disjI1 [OF h2] h3] h1 h2 c show ?thesis by simp
qed

subsection \<open>Termination of the mailbox buffer\<close>

text \<open>
  Claim C7.  After a publish of a message of any length the buffer still has its 256
  bytes and ends in NUL, and it holds the message cut to 255 characters.  This stays
  true after every further operation of a run (publishes, reads, settle passes), and
  the local copy that a read makes never needs more than its 256 bytes and is
  terminated as well.
\<close>

theorem mailbox_always_terminated:
  assumes "length (buffer s) = 256"
  shows "mailbox_inv (bbb_chardev_push_event msg s) \<and>
         cstr (buffer (bbb_chardev_push_event msg s)) = take 255 (cstr msg) \<and>
         mailbox_inv (run ops (bbb_chardev_push_event msg s)) \<and>
         strlen (buffer (run ops (bbb_chardev_push_event msg s))) \<le> 255 \<and>
         local_len (run ops (bbb_chardev_push_event msg s)) \<le> 255 \<and>
         length (local_buf (run ops (bbb_chardev_push_event msg s))) \<le> 256 \<and>
         last (local_buf (run ops (bbb_chardev_push_event msg s))) = NUL"
proof -
  let ?p = "bbb_chardev_push_event msg s"
  have inv: "mailbox_inv ?p" using assms by (rule push_event_inv)
  have c: "cstr (buffer ?p) = take 255 (cstr msg)"
    using cstr_push_buffer [of "buffer s" msg 255] by (simp add: push_event_fields)
  have rinv: "mailbox_inv (run ops ?p)" using inv by (rule run_inv)
  then have "strlen (buffer (run ops ?p)) \<le> 256 - 1"
    unfolding mailbox_inv_def by (intro strlen_terminated) simp_all
  then have sl: "strlen (buffer (run ops ?p)) \<le> 255" by simp
  have ll: "local_len (run ops ?p) \<le> 255" using local_len_le [of "run ops ?p"] by simp
  have lb: "length (local_buf (run ops ?p)) \<le> 256" by (rule length_local_buf)
  have la: "last (local_buf (run ops ?p)) = NUL" by (simp add: local_buf_def)
  from inv c rinv sl ll lb la show ?thesis by blast
qed

theorem mailbox_always_terminated_witness:
  "length (buffer (booted 1)) = 256 \<and>
   mailbox_inv (bbb_chardev_push_event (replicate 300 CHR ''a'') (booted 1)) \<and>
   cstr (buffer (bbb_chardev_push_event (replicate 300 CHR ''a'') (booted 1))) = replicate 255 CHR ''a'' \<and>
   length (local_buf (run [Read 1 False False 10] (bbb_chardev_push_event (replicate 300 CHR ''a'') (booted 1)))) \<le> 256"
proof -
  have h: "length (buffer (booted 1)) = 256" by (simp add: booted_eq kzalloc_bbb_btn_def)
  have r: "take 255 (cstr (replicate 300 CHR ''a'')) = replicate 255 CHR ''a''"
    by (simp add: cstr_def NUL_def)
  show ?thesis
    using h r mailbox_always_terminated [OF h, of "replicate 300 CHR ''a''" "[Read 1 False False 10]"]
    by simp
qed

subsection \<open>Fields after each entry point\<close>

lemma push_event_more:
  "debounce_ms (bbb_chardev_push_event msg s) = debounce_ms s"
  "work_pending (bbb_chardev_push_event msg s) = work_pending s"
  "registered (bbb_chardev_push_event msg s) = registered s"
  by (simp_all add: bbb_chardev_push_event_def wake_up_interruptible_def)

lemma debounce_work_fields:
  "work_executions (bbb_btn_debounce_work state t_event t_msg b) =
     (if state \<noteq> last_state b then work_executions b + 2 else work_executions b + 1)"
  "press_count (bbb_btn_debounce_work state t_event t_msg b) =
     (if state \<noteq> last_state b then press_count b + 1 else press_count b)"
  "last_event_ns (bbb_btn_debounce_work state t_event t_msg b) =
     (if state \<noteq> last_state b then t_event else last_event_ns b)"
  "total_irqs (bbb_btn_debounce_work state t_event t_msg b) = total_irqs b"
  "last_state (bbb_btn_debounce_work state t_event t_msg b) = state"
  "input (bbb_btn_debounce_work state t_event t_msg b) =
     (if state \<noteq> last_state b
      then input b @ [Report_key KEY_ENTER (if state = 0 then 1 else 0), Sync] else input b)"
  "has_event (bbb_btn_debounce_work state t_event t_msg b)"
  "debounce_work (bbb_btn_debounce_work state t_event t_msg b) = debounce_work b"
  "debounce_ms (bbb_btn_debounce_work state t_event t_msg b) = debounce_ms b"
  by (simp_all add: bbb_btn_debounce_work_def Let_def push_event_fields push_event_more)

lemma irq_fields:
  "total_irqs (bbb_btn_irq b) = total_irqs b + 1"
  "work_executions (bbb_btn_irq b) = work_executions b"
  "press_count (bbb_btn_irq b) = press_count b"
  "last_event_ns (bbb_btn_irq b) = last_event_ns b"
  "last_state (bbb_btn_irq b) = last_state b"
  "debounce_work (bbb_btn_irq b) = [debounce_ms b]"
  "debounce_ms (bbb_btn_irq b) = debounce_ms b"
  "work_pending (bbb_btn_irq b)"
  "has_event (bbb_btn_irq b) = has_event b"
  "buffer (bbb_btn_irq b) = buffer b"
  by (simp_all add: bbb_btn_irq_def Let_def cancel_delayed_work_def schedule_delayed_work_def)

lemma read_locked_snd:
  "snd (chardev_read_locked fault count s) = s\<lparr>has_event := False\<rparr>"
  by (cases "has_event s") (simp_all add: read_locked_event read_locked_no_event)

lemma read_snd:
  "snd (bbb_btn_chardev_read pid sig fault count s) =
     (if has_event s then s\<lparr>has_event := False\<rparr>
      else if sig then s else s\<lparr>wait := wait s @ [pid]\<rparr>)"
  by (simp add: read_event read_no_event read_locked_snd)

subsection \<open>The settle pass\<close>

text \<open>
  Claim C6.  A settle pass that reads a level different from the last accepted one
  stores the new level in \<open>last_state\<close>, adds one to \<open>press_count\<close>, stores
  the clock value in \<open>last_event_ns\<close>, and sends the input device exactly one key
  report, with value \<^verbatim>\<open>!state\<close>, followed by exactly one sync.
\<close>

theorem confirmed_change_is_recorded:
  assumes "state \<noteq> last_state b"
  shows "last_state (bbb_btn_debounce_work state t_event t_msg b) = state \<and>
         press_count (bbb_btn_debounce_work state t_event t_msg b) = press_count b + 1 \<and>
         last_event_ns (bbb_btn_debounce_work state t_event t_msg b) = t_event \<and>
         input (bbb_btn_debounce_work state t_event t_msg b) =
           input b @ [Report_key KEY_ENTER (if state = 0 then 1 else 0), Sync]"
  using assms by (simp add: debounce_work_fields)

theorem confirmed_change_is_recorded_witness:
  "(0::int) \<noteq> last_state (booted 1) \<and>
   last_state (bbb_btn_debounce_work 0 5 7 (booted 1)) = 0 \<and>
   press_count (bbb_btn_debounce_work 0 5 7 (booted 1)) = 1 \<and>
   last_event_ns (bbb_btn_debounce_work 0 5 7 (booted 1)) = 5 \<and>
   input (bbb_btn_debounce_work 0 5 7 (booted 1)) = [Report_key KEY_ENTER 1, Sync]"
proof -
  have h: "(0::int) \<noteq> last_state (booted 1)" by (simp add: booted_eq)
  show ?thesis
    using h confirmed_change_is_recorded [OF h, of 5 7]
    by (simp add: booted_eq kzalloc_bbb_btn_def)
qed

lemma exec_timers: "length (debounce_work b) \<le> 1 \<Longrightarrow> length (debounce_work (exec x b)) \<le> 1"
  by (cases x) (simp_all add: irq_fields debounce_work_fields read_snd read_locked_snd push_event_fields)

lemma run_timers: "length (debounce_work b) \<le> 1 \<Longrightarrow> length (debounce_work (run ops b)) \<le> 1"
  unfolding run_def
proof (induction ops arbitrary: b)
  case Nil
  then show ?case by simp
next
  case (Cons x ops)
  from Cons.prems have "length (debounce_work (exec x b)) \<le> 1" by (rule exec_timers)
  then have "length (debounce_work (fold exec ops (exec x b))) \<le> 1" by (rule Cons.IH)
  then show ?case by simp
qed

lemma exec_debounce_ms: "debounce_ms (exec x b) = debounce_ms b"
  by (cases x) (simp_all add: irq_fields debounce_work_fields read_snd read_locked_snd push_event_more)

lemma run_debounce_ms: "debounce_ms (run ops b) = debounce_ms b"
  unfolding run_def by (induction ops arbitrary: b) (simp_all add: exec_debounce_ms)

lemma run_append: "run (xs @ ys) b = run ys (run xs b)"
  by (simp add: run_def)

subsection \<open>The settle timer\<close>

text \<open>
  Claim C8.  Whatever timers were pending before, after an interrupt exactly one is
  pending and it runs for the whole configured interval; a second interrupt leaves
  exactly one again.  At every point of every run that starts from the state left by
  probe, or from the state after an interrupt, at most one timer is pending.
\<close>

theorem one_settle_timer:
  "debounce_work (bbb_btn_irq b) = [debounce_ms b] \<and>
   debounce_work (bbb_btn_irq (bbb_btn_irq b)) = [debounce_ms b] \<and>
   debounce_work (run (ops @ [Intake]) (booted level)) = [20] \<and>
   length (debounce_work (run ops (booted level))) \<le> 1 \<and>
   length (debounce_work (run ops (bbb_btn_irq b))) \<le> 1"
proof -
  have "debounce_work (run (ops @ [Intake]) (booted level)) = [debounce_ms (booted level)]"
    by (simp add: run_append run_def irq_fields run_debounce_ms [unfolded run_def])
  moreover have "length (debounce_work (run ops (booted level))) \<le> 1"
    by (rule run_timers) (simp add: booted_eq kzalloc_bbb_btn_def)
  moreover have "length (debounce_work (run ops (bbb_btn_irq b))) \<le> 1"
    by (rule run_timers) (simp add: irq_fields)
  ultimately show ?thesis by (simp add: irq_fields booted_eq kzalloc_bbb_btn_def)
qed

subsection \<open>Counting settle passes\<close>

lemma sint_of_nat_64:
  assumes "n < 2 ^ 63"
  shows "sint (of_nat n :: 64 word) = int n"
proof -
  have "int n < 2 ^ 63" using assms by (simp add: of_nat_less_numeral_power_cancel_iff)
  then have "signed_take_bit 63 (int n) = int n"
    by (intro signed_take_bit_int_eq_self) simp_all
  then show ?thesis by (simp add: signed_of_nat)
qed

lemma sint_add_64:
  assumes "0 \<le> k" and "sint (w :: 64 word) + k < 2 ^ 63" and "sint (v :: 64 word) = k"
  shows "sint (w + v) = sint w + k"
proof -
  have lo: "- (2 ^ 63) \<le> sint w" using sint_ge [of w] by simp
  have "sint (w + v) = signed_take_bit 63 (sint w + k)"
    by (simp add: sint_word_ariths assms(3))
  also have "\<dots> = sint w + k"
    using lo assms(1,2) by (intro signed_take_bit_int_eq_self) simp_all
  finally show ?thesis .
qed

lemma sint_inc_64: "sint (w :: 64 word) < 2 ^ 63 - 1 \<Longrightarrow> sint (w + 1) = sint w + 1"
  by (rule sint_add_64) simp_all

lemma sint_inc2_64: "sint (w :: 64 word) < 2 ^ 63 - 2 \<Longrightarrow> sint (w + 2) = sint w + 2"
  by (rule sint_add_64) simp_all

lemma run_work_executions:
  "work_executions (run ops b) = work_executions b + of_nat (passes ops + changes ops (last_state b))"
proof (induction ops arbitrary: b)
  case Nil
  show ?case by (simp add: run_def)
next
  case (Cons x ops)
  have step: "run (x # ops) b = run ops (exec x b)" by (simp add: run_def)
  show ?case
  proof (cases x)
    case (Settle st t1 t2)
    show ?thesis unfolding step Cons.IH
      by (simp add: Settle debounce_work_fields)
  next
    case Intake
    show ?thesis unfolding step Cons.IH by (simp add: Intake irq_fields)
  next
    case (Read pid sig fault count)
    show ?thesis unfolding step Cons.IH by (simp add: Read read_snd)
  next
    case (Resume fault count)
    show ?thesis unfolding step Cons.IH by (simp add: Resume read_locked_snd)
  next
    case (Signal pid)
    show ?thesis unfolding step Cons.IH by (simp add: Signal)
  next
    case (Publish msg)
    show ?thesis unfolding step Cons.IH by (simp add: Publish push_event_fields)
  qed
qed

lemma run_press_count:
  "press_count (run ops b) = press_count b + of_nat (changes ops (last_state b))"
proof (induction ops arbitrary: b)
  case Nil
  show ?case by (simp add: run_def)
next
  case (Cons x ops)
  have step: "run (x # ops) b = run ops (exec x b)" by (simp add: run_def)
  show ?case
  proof (cases x)
    case (Settle st t1 t2)
    show ?thesis unfolding step Cons.IH
      by (simp add: Settle debounce_work_fields)
  next
    case Intake
    show ?thesis unfolding step Cons.IH by (simp add: Intake irq_fields)
  next
    case (Read pid sig fault count)
    show ?thesis unfolding step Cons.IH by (simp add: Read read_snd)
  next
    case (Resume fault count)
    show ?thesis unfolding step Cons.IH by (simp add: Resume read_locked_snd)
  next
    case (Signal pid)
    show ?thesis unfolding step Cons.IH by (simp add: Signal)
  next
    case (Publish msg)
    show ?thesis unfolding step Cons.IH by (simp add: Publish push_event_fields)
  qed
qed

text \<open>
  Claim C10.  A settle pass that reads a changed level adds exactly 2 to
  \<open>work_executions\<close> (a pass that reads the accepted level adds 1).  So after any
  run from the state left by probe, \<open>work_executions\<close> is the number of settle
  passes plus the number of confirmed changes, as a 64-bit value, and it reads as
  that number as long as the sum is below \<open>2 ^ 63\<close>; \<open>press_count\<close> is the
  number of confirmed changes.
\<close>

theorem work_executions_counts_passes_and_changes:
  "(state \<noteq> last_state b \<longrightarrow>
      work_executions (bbb_btn_debounce_work state t_event t_msg b) = work_executions b + 2) \<and>
   (state = last_state b \<longrightarrow>
      work_executions (bbb_btn_debounce_work state t_event t_msg b) = work_executions b + 1) \<and>
   work_executions (run ops (booted level)) = of_nat (passes ops + changes ops level) \<and>
   press_count (run ops (booted level)) = of_nat (changes ops level) \<and>
   (passes ops + changes ops level < 2 ^ 63 \<longrightarrow>
      sint (work_executions (run ops (booted level))) = int (passes ops + changes ops level))"
proof -
  have w: "work_executions (run ops (booted level)) = of_nat (passes ops + changes ops level)"
    by (simp add: run_work_executions booted_eq kzalloc_bbb_btn_def)
  have p: "press_count (run ops (booted level)) = of_nat (changes ops level)"
    by (simp add: run_press_count booted_eq kzalloc_bbb_btn_def)
  have s: "sint (work_executions (run ops (booted level))) = int (passes ops + changes ops level)"
    if "passes ops + changes ops level < 2 ^ 63"
  proof -
    have "sint (of_nat (passes ops + changes ops level) :: 64 word) = int (passes ops + changes ops level)"
      using that by (rule sint_of_nat_64)
    then show ?thesis by (simp only: w)
  qed
  from w p s show ?thesis by (simp add: debounce_work_fields)
qed

theorem work_executions_counts_passes_and_changes_witness:
  "(0::int) \<noteq> last_state (booted 1) \<and>
   work_executions (bbb_btn_debounce_work 0 5 7 (booted 1)) = work_executions (booted 1) + 2 \<and>
   (1::int) = last_state (booted 1) \<and>
   work_executions (bbb_btn_debounce_work 1 5 7 (booted 1)) = work_executions (booted 1) + 1 \<and>
   passes [Intake, Settle 0 5 7, Settle 0 8 9, Settle 1 10 11] +
     changes [Intake, Settle 0 5 7, Settle 0 8 9, Settle 1 10 11] 1 = 5 \<and>
   (5::nat) < 2 ^ 63 \<and>
   work_executions (run [Intake, Settle 0 5 7, Settle 0 8 9, Settle 1 10 11] (booted 1)) = 5 \<and>
   sint (work_executions (run [Intake, Settle 0 5 7, Settle 0 8 9, Settle 1 10 11] (booted 1))) = 5"
proof -
  let ?ops = "[Intake, Settle 0 5 7, Settle 0 8 9, Settle 1 10 11]"
  have h1: "(0::int) \<noteq> last_state (booted 1)" by (simp add: booted_eq)
  have h2: "(1::int) = last_state (booted 1)" by (simp add: booted_eq)
  have h3: "passes ?ops + changes ?ops 1 = 5" by simp
  have h4: "(5::nat) < 2 ^ 63" by simp
  show ?thesis
    using h1 h2 h3 h4
      work_executions_counts_passes_and_changes [of 0 "booted 1" 5 7 ?ops 1]
      work_executions_counts_passes_and_changes [of 1 "booted 1" 5 7 ?ops 1]
    by simp
qed

subsection \<open>Monotonic counters\<close>

text \<open>
  Claim C9 as stated (no operation ever decreases a counter) does not hold at the end
  of the range.  The counters are signed 64-bit values and \<^verbatim>\<open>atomic64_inc\<close>
  wraps around: an interrupt that arrives when \<open>total_irqs\<close> is \<open>2 ^ 63 - 1\<close>
  takes it to \<open>- 2 ^ 63\<close>.
\<close>

theorem counter_wraps_at_maximum:
  "sint (total_irqs ((booted 1)\<lparr>total_irqs := 0x7FFFFFFFFFFFFFFF\<rparr>)) = 9223372036854775807 \<and>
   sint (total_irqs (bbb_btn_irq ((booted 1)\<lparr>total_irqs := 0x7FFFFFFFFFFFFFFF\<rparr>))) = - 9223372036854775808 \<and>
   \<not> counters_le ((booted 1)\<lparr>total_irqs := 0x7FFFFFFFFFFFFFFF\<rparr>)
         (exec Intake ((booted 1)\<lparr>total_irqs := 0x7FFFFFFFFFFFFFFF\<rparr>))"
  by (simp add: irq_fields counters_le_def)

text \<open>
  Claim C9, amended.  As long as no counter is about to wrap and the clock value that a
  settle pass stores is not before the stored time stamp, every operation (interrupt,
  settle pass, read, resumed read, signal, publish) leaves each of the four counters
  unchanged or larger.
\<close>

theorem counters_monotonic_below_wrap:
  assumes "below_max b" and "clock_ok x b"
  shows "counters_le b (exec x b)"
proof (cases x)
  case Intake
  from assms(1) have "sint (total_irqs b + 1) = sint (total_irqs b) + 1"
    by (intro sint_inc_64) (simp add: below_max_def S64_MAX_def)
  then show ?thesis by (simp add: Intake counters_le_def irq_fields)
next
  case (Settle state t_event t_msg)
  from assms(1) have w1: "sint (work_executions b + 1) = sint (work_executions b) + 1"
    by (intro sint_inc_64) (simp add: below_max_def S64_MAX_def)
  from assms(1) have w2: "sint (work_executions b + 2) = sint (work_executions b) + 2"
    by (intro sint_inc2_64) (simp add: below_max_def S64_MAX_def)
  from assms(1) have p: "sint (press_count b + 1) = sint (press_count b) + 1"
    by (intro sint_inc_64) (simp add: below_max_def S64_MAX_def)
  from assms(2) have c: "sint (last_event_ns b) \<le> sint t_event" by (simp add: Settle)
  show ?thesis using w1 w2 p c by (simp add: Settle counters_le_def debounce_work_fields)
next
  case (Read pid sig fault count)
  then show ?thesis by (simp add: counters_le_def read_snd)
next
  case (Resume fault count)
  then show ?thesis by (simp add: counters_le_def read_locked_snd)
next
  case (Signal pid)
  then show ?thesis by (simp add: counters_le_def)
next
  case (Publish msg)
  then show ?thesis by (simp add: counters_le_def push_event_fields)
qed

theorem counters_monotonic_below_wrap_witness:
  "below_max (booted 1) \<and> clock_ok (Settle 0 5 7) (booted 1) \<and>
   counters_le (booted 1) (exec (Settle 0 5 7) (booted 1)) \<and>
   sint (work_executions (exec (Settle 0 5 7) (booted 1))) = 2 \<and>
   sint (last_event_ns (exec (Settle 0 5 7) (booted 1))) = 5"
proof -
  have h1: "below_max (booted 1)"
    by (simp add: below_max_def S64_MAX_def booted_eq kzalloc_bbb_btn_def)
  have h2: "clock_ok (Settle 0 5 7) (booted 1)"
    by (simp add: booted_eq kzalloc_bbb_btn_def)
  show ?thesis
    using h1 h2 counters_monotonic_below_wrap [OF h1 h2]
    by (simp add: debounce_work_fields booted_eq kzalloc_bbb_btn_def)
qed

subsection \<open>Overwriting publishes\<close>

lemma local_len_short: "strlen (buffer s) \<le> 255 \<Longrightarrow> local_len s = strlen (buffer s)"
  by (simp add: local_len_def Let_def)

lemma local_buf_short: "strlen (buffer s) \<le> 255 \<Longrightarrow> local_buf s = cstr (buffer s) @ [NUL]"
  by (simp add: local_buf_def local_len_short strlen_def take_cstr)

lemma push_event_cstr: "cstr (buffer (bbb_chardev_push_event msg s)) = take 255 (cstr msg)"
  using cstr_push_buffer [of "buffer s" msg 255] by (simp add: push_event_fields)

lemma read_after_push:
  "bbb_btn_chardev_read pid sig False count (bbb_chardev_push_event msg s) =
     (Ret (int (min count (length (take 255 (cstr msg))))) (take count (take 255 (cstr msg))),
      (bbb_chardev_push_event msg s)\<lparr>has_event := False\<rparr>)"
proof -
  let ?p = "bbb_chardev_push_event msg s"
  have c: "cstr (buffer ?p) = take 255 (cstr msg)" by (rule push_event_cstr)
  then have sl: "strlen (buffer ?p) \<le> 255" by (simp add: strlen_def)
  have ll: "local_len ?p = length (take 255 (cstr msg))"
    using local_len_short [OF sl] c by (simp add: strlen_def)
  have lb: "local_buf ?p = take 255 (cstr msg) @ [NUL]"
    using local_buf_short [OF sl] c by simp
  have "take (min count (length (take 255 (cstr msg)))) (take 255 (cstr msg) @ [NUL]) =
        take count (take 255 (cstr msg))"
    by (simp add: min_def)
  then show ?thesis
    by (simp add: read_event read_locked_event push_event_fields ll lb del: take_take length_take)
qed

text \<open>
  Claim C3.  After two publishes, whatever runs between them, the flag is set and the
  buffer holds the second message (cut to the 255 characters the buffer has room
  for).  One read then returns the second message, cut to the requested count, and
  clears the flag; the state it leaves has no event: a further read call blocks, and a
  reader that already left its wait gets \<^verbatim>\<open>-EAGAIN\<close>.
\<close>

theorem second_publish_overwrites_first:
  "has_event (bbb_chardev_push_event m2 (run ops (bbb_chardev_push_event m1 s))) \<and>
   cstr (buffer (bbb_chardev_push_event m2 (run ops (bbb_chardev_push_event m1 s)))) =
     take 255 (cstr m2) \<and>
   bbb_btn_chardev_read pid sig False count
       (bbb_chardev_push_event m2 (run ops (bbb_chardev_push_event m1 s))) =
     (Ret (int (min count (length (take 255 (cstr m2))))) (take count (take 255 (cstr m2))),
      (bbb_chardev_push_event m2 (run ops (bbb_chardev_push_event m1 s)))\<lparr>has_event := False\<rparr>) \<and>
   fst (bbb_btn_chardev_read pid' False fault' count'
         ((bbb_chardev_push_event m2 (run ops (bbb_chardev_push_event m1 s)))\<lparr>has_event := False\<rparr>)) =
     Blocked \<and>
   fst (chardev_read_locked fault' count'
         ((bbb_chardev_push_event m2 (run ops (bbb_chardev_push_event m1 s)))\<lparr>has_event := False\<rparr>)) =
     Ret (- EAGAIN) []"
proof -
  let ?s2 = "bbb_chardev_push_event m2 (run ops (bbb_chardev_push_event m1 s))"
  have a: "has_event ?s2" by (rule push_event_fields(2))
  have b: "cstr (buffer ?s2) = take 255 (cstr m2)" by (rule push_event_cstr)
  have c: "bbb_btn_chardev_read pid sig False count ?s2 =
     (Ret (int (min count (length (take 255 (cstr m2))))) (take count (take 255 (cstr m2))),
      ?s2\<lparr>has_event := False\<rparr>)" by (rule read_after_push)
  have d: "fst (bbb_btn_chardev_read pid' False fault' count' (?s2\<lparr>has_event := False\<rparr>)) = Blocked"
    by (simp add: read_no_event)
  have e: "fst (chardev_read_locked fault' count' (?s2\<lparr>has_event := False\<rparr>)) = Ret (- EAGAIN) []"
    by (simp add: read_locked_no_event)
  from a b c d e show ?thesis by blast
qed

theorem second_publish_overwrites_first_witness:
  "bbb_btn_chardev_read 1 False False 64
       (bbb_chardev_push_event ''second'' (bbb_chardev_push_event ''first'' (booted 1))) =
     (Ret 6 ''second'',
      (bbb_chardev_push_event ''second'' (bbb_chardev_push_event ''first'' (booted 1)))\<lparr>has_event := False\<rparr>)"
  using second_publish_overwrites_first [of "''second''" "[]" "''first''" "booted 1" 1 False 64]
  by (simp add: run_def cstr_def NUL_def)

subsection \<open>What a failing read leaves behind\<close>

text \<open>
  Claim C2 as stated (the event stays available on every failing return) does not
  hold.  The flag is cleared inside the locked section, before
  \<^verbatim>\<open>copy_to_user\<close>.  When the copy fails, the read returns \<^verbatim>\<open>-EFAULT\<close>
  and the event that was pending is no longer readable.
\<close>

theorem fault_loses_event:
  "has_event (bbb_chardev_push_event ''x'' (booted 1)) \<and>
   fst (bbb_btn_chardev_read 1 False True 8 (bbb_chardev_push_event ''x'' (booted 1))) =
     Ret (- EFAULT) [] \<and>
   has_event (snd (bbb_btn_chardev_read 1 False True 8 (bbb_chardev_push_event ''x'' (booted 1)))) =
     False"
  by (simp add: read_event read_locked_event push_event_fields(2))

text \<open>
  Claim C2, amended.  Whenever a read returns, from its entry or from the locked
  section, the buffer is what it was and the value returned is \<^verbatim>\<open>-ERESTARTSYS\<close>,
  \<^verbatim>\<open>-EAGAIN\<close>, \<^verbatim>\<open>-EFAULT\<close> or a byte count.  On \<^verbatim>\<open>-ERESTARTSYS\<close> and
  \<^verbatim>\<open>-EAGAIN\<close> the whole state is unchanged.  On \<^verbatim>\<open>-EFAULT\<close> and on a byte
  count there was an event and the only change is that the flag is cleared.  A wait
  that a signal interrupts makes the read return \<^verbatim>\<open>-ERESTARTSYS\<close> with the state
  unchanged.
\<close>

theorem read_clears_flag_at_locked_check:
  assumes "bbb_btn_chardev_read pid sig fault count s = (Ret n d, s') \<or>
           chardev_read_locked fault count s = (Ret n d, s')"
  shows "buffer s' = buffer s \<and>
         (n = - ERESTARTSYS \<or> n = - EAGAIN \<or> n = - EFAULT \<or> 0 \<le> n) \<and>
         (n = - ERESTARTSYS \<or> n = - EAGAIN \<longrightarrow> s' = s) \<and>
         (n = - EFAULT \<or> 0 \<le> n \<longrightarrow> has_event s \<and> s' = s\<lparr>has_event := False\<rparr>) \<and>
         (wait_event_interruptible (has_event s) sig = Finished (- ERESTARTSYS) \<longrightarrow>
            bbb_btn_chardev_read pid sig fault count s = (Ret (- ERESTARTSYS) [], s))"
proof -
  have last: "wait_event_interruptible (has_event s) sig = Finished (- ERESTARTSYS) \<longrightarrow>
            bbb_btn_chardev_read pid sig fault count s = (Ret (- ERESTARTSYS) [], s)"
    by (simp add: bbb_btn_chardev_read_def ERESTARTSYS_def)
  show ?thesis
  proof (cases "has_event s")
    case True
    with assms have r: "chardev_read_locked fault count s = (Ret n d, s')"
      by (simp add: read_event)
    with True have s': "s' = s\<lparr>has_event := False\<rparr>"
      and n: "n = (if fault then - EFAULT else int (min count (local_len s)))"
      by (simp_all add: read_locked_event split: if_splits)
    from n have "n = - EFAULT \<or> 0 \<le> n" by (simp split: if_splits)
    moreover from this have "\<not> (n = - ERESTARTSYS \<or> n = - EAGAIN)"
      by (auto simp: ERESTARTSYS_def EAGAIN_def EFAULT_def)
    ultimately show ?thesis using True s' last by simp
  next
    case False
    with assms have "(n = - ERESTARTSYS \<or> n = - EAGAIN) \<and> s' = s"
      by (auto simp: read_no_event read_locked_no_event split: if_splits)
    moreover from this have "\<not> (n = - EFAULT \<or> 0 \<le> n)"
      by (auto simp: ERESTARTSYS_def EAGAIN_def EFAULT_def)
    ultimately show ?thesis using last by blast
  qed
qed

theorem read_clears_flag_at_locked_check_witness:
  "bbb_btn_chardev_read 1 True False 8 (booted 1) = (Ret (- ERESTARTSYS) [], booted 1) \<and>
   wait_event_interruptible (has_event (booted 1)) True = Finished (- ERESTARTSYS) \<and>
   chardev_read_locked False 8 (booted 1) = (Ret (- EAGAIN) [], booted 1) \<and>
   bbb_btn_chardev_read 1 False True 8 (bbb_chardev_push_event ''x'' (booted 1)) =
     (Ret (- EFAULT) [], (bbb_chardev_push_event ''x'' (booted 1))\<lparr>has_event := False\<rparr>) \<and>
   has_event (bbb_chardev_push_event ''x'' (booted 1)) \<and>
   buffer ((bbb_chardev_push_event ''x'' (booted 1))\<lparr>has_event := False\<rparr>) =
     buffer (bbb_chardev_push_event ''x'' (booted 1))"
proof -
  let ?p = "bbb_chardev_push_event ''x'' (booted 1)"
  have ne: "\<not> has_event (booted 1)" by (simp add: booted_eq kzalloc_bbb_btn_def)
  have h1: "bbb_btn_chardev_read 1 True False 8 (booted 1) = (Ret (- ERESTARTSYS) [], booted 1)"
    using ne by (simp add: read_no_event)
  have h2: "chardev_read_locked False 8 (booted 1) = (Ret (- EAGAIN) [], booted 1)"
    using ne by (simp add: read_locked_no_event)
  have h3: "bbb_btn_chardev_read 1 False True 8 ?p = (Ret (- EFAULT) [], ?p\<lparr>has_event := False\<rparr>)"
    by (simp add: read_event read_locked_event push_event_fields(2))
  have w: "wait_event_interruptible (has_event (booted 1)) True = Finished (- ERESTARTSYS)"
    using ne by (simp add: wait_event_interruptible_def)
  note a = read_clears_flag_at_locked_check [OF disjI1 [OF h1]]
  note c = read_clears_flag_at_locked_check [OF disjI1 [OF h3]]
  have hp: "has_event ?p" using c h3 by blast
  have x: "buffer (?p\<lparr>has_event := False\<rparr>) = buffer ?p" using c by (rule conjunct1)
  have h1': "bbb_btn_chardev_read 1 True False 8 (booted 1) = (Ret (- ERESTARTSYS) [], booted 1)"
    using a w by blast
  from h1' w h2 h3 hp x show ?thesis by (intro conjI)
qed

subsection \<open>A settle pass that reads the accepted level\<close>

lemma event_text_example: "event_text 1 0 7 = ''button released: count=0 time=7'' @ [CHR 0x0A]"
  by (simp add: event_text_def lld_def digit_char_def)

text \<open>
  Claim C1.  A settle pass that reads the last accepted level should change no counter
  but \<open>work_executions\<close> and publish nothing.  The counters behave so, but the
  pass publishes all the same: from the state left by probe with the line high and
  no event pending, a pass that reads the line high sets \<open>has_event\<close> and puts a
  "released" message into the buffer, while \<open>press_count\<close> stays 0 and the input
  device receives nothing.
\<close>

theorem unchanged_level_still_publishes:
  "last_state (booted 1) = 1 \<and>
   has_event (booted 1) = False \<and>
   has_event (bbb_btn_debounce_work 1 5 7 (booted 1)) \<and>
   cstr (buffer (bbb_btn_debounce_work 1 5 7 (booted 1))) =
     ''button released: count=0 time=7'' @ [CHR 0x0A] \<and>
   press_count (bbb_btn_debounce_work 1 5 7 (booted 1)) = 0 \<and>
   work_executions (bbb_btn_debounce_work 1 5 7 (booted 1)) = 1 \<and>
   input (bbb_btn_debounce_work 1 5 7 (booted 1)) = []"
proof -
  have b: "cstr (buffer (bbb_btn_debounce_work 1 5 7 (booted 1))) =
     ''button released: count=0 time=7'' @ [CHR 0x0A]"
    unfolding bbb_btn_debounce_work_def Let_def push_event_cstr
    by (simp add: booted_eq kzalloc_bbb_btn_def event_text_example snprintf_def cstr_def NUL_def)
  then show ?thesis
    by (simp add: debounce_work_fields booted_eq kzalloc_bbb_btn_def)
qed

subsection \<open>Teardown with a sleeping reader\<close>

lemma remove_keeps_sleepers:
  assumes "\<not> has_event s"
  shows "wait (bbb_btn_remove s) = wait s" and "\<not> has_event (bbb_btn_remove s)"
  using assms
  by (simp_all add: bbb_btn_remove_def bbb_chardev_unregister_def cancel_delayed_work_sync_def
      wake_up_interruptible_def)

text \<open>
  Claim C5.  After teardown no reader should stay blocked in the wait.  A reader that
  calls read on the state left by probe, with no event and no signal, goes to sleep on
  the wait queue.  \<^verbatim>\<open>bbb_btn_remove\<close> wakes the queue but leaves \<open>has_event\<close>
  false, so the reader finds its condition false, is still on the queue after
  teardown, and its wait would sleep again.
\<close>

theorem teardown_leaves_reader_asleep:
  "fst (bbb_btn_chardev_read 7 False False 64 (booted 1)) = Blocked \<and>
   wait (snd (bbb_btn_chardev_read 7 False False 64 (booted 1))) = [7] \<and>
   wait (bbb_btn_remove (snd (bbb_btn_chardev_read 7 False False 64 (booted 1)))) = [7] \<and>
   has_event (bbb_btn_remove (snd (bbb_btn_chardev_read 7 False False 64 (booted 1)))) = False \<and>
   registered (bbb_btn_remove (snd (bbb_btn_chardev_read 7 False False 64 (booted 1)))) = False \<and>
   wait_event_interruptible
     (has_event (bbb_btn_remove (snd (bbb_btn_chardev_read 7 False False 64 (booted 1))))) False =
     Sleeping"
proof -
  have ne: "\<not> has_event (booted 1)" by (simp add: booted_eq kzalloc_bbb_btn_def)
  have w: "wait (booted 1) = []" by (simp add: booted_eq kzalloc_bbb_btn_def)
  show ?thesis
    using ne w
    by (simp add: read_no_event bbb_btn_remove_def bbb_chardev_unregister_def
        cancel_delayed_work_sync_def wake_up_interruptible_def wait_event_interruptible_def)
qed

end
